theory Spec2Isabelle
  imports Complex_Main
begin

section \<open>Python values used by slidingwindow/SlidingWindow.py\<close>

text \<open>
  Exceptions are values. The module raises through \<^verbatim>\<open>raise Error(...)\<close>, but it
  neither defines nor imports a name \<^verbatim>\<open>Error\<close>: evaluating that expression raises
  Python's NameError for the name looked up, before any exception object is built.
  ValueError is what \<^verbatim>\<open>range\<close> raises for a zero step and what \<^verbatim>\<open>list.index\<close>
  raises for a missing element; IndexError and ZeroDivisionError come from indexing a
  shape and from \<^verbatim>\<open>/\<close>; OverflowError comes from converting an integer too large
  for a float and from \<^verbatim>\<open>math.floor\<close> of an infinite product.
\<close>

datatype py_error =
  NameError string | ValueError | IndexError | ZeroDivisionError | OverflowError

text \<open>\<^verbatim>\<open>slice(start, stop)\<close>, either bound possibly \<^verbatim>\<open>None\<close>.\<close>

datatype slice = Slice "int option" "int option"

text \<open>
  The positions a slice selects on an axis of length \<open>n\<close> (Python's rule for a slice
  with step 1: a negative bound counts from the end, every bound is clamped to the axis).
\<close>

definition norm_bound :: "int \<Rightarrow> int \<Rightarrow> int" where
  "norm_bound n i = (if i < 0 then max 0 (n + i) else min i n)"

fun slice_positions :: "slice \<Rightarrow> int \<Rightarrow> int list" where
  "slice_positions (Slice a b) n =
     (let start = (case a of None \<Rightarrow> 0 | Some i \<Rightarrow> norm_bound n i);
          stop = (case b of None \<Rightarrow> n | Some j \<Rightarrow> norm_bound n j)
      in [start .. stop - 1])"

text \<open>
  \<^verbatim>\<open>range(start, stop, step)\<close> as a list: ValueError for a zero step, ascending for a
  positive step, descending for a negative one.
\<close>

function range_up :: "int \<Rightarrow> int \<Rightarrow> int \<Rightarrow> int list" where
  "range_up i stop step =
     (if 0 < step \<and> i < stop then i # range_up (i + step) stop step else [])"
  by pat_completeness auto
termination
  by (relation "measure (\<lambda>(i, stop, step). nat (stop - i))") auto

function range_down :: "int \<Rightarrow> int \<Rightarrow> int \<Rightarrow> int list" where
  "range_down i stop step =
     (if step < 0 \<and> stop < i then i # range_down (i + step) stop step else [])"
  by pat_completeness auto
termination
  by (relation "measure (\<lambda>(i, stop, step). nat (i - stop))") auto

declare range_up.simps [simp del] range_down.simps [simp del]

definition py_range :: "int \<Rightarrow> int \<Rightarrow> int \<Rightarrow> py_error + int list" where
  "py_range start stop step =
     (if step = 0 then Inl ValueError
      else if 0 < step then Inr (range_up start stop step)
      else Inr (range_down start stop step))"



section \<open>DimOrder and IterOrder\<close>

text \<open>
  Both classes hold plain lists of one-letter strings, compared with \<^verbatim>\<open>==\<close>; any other
  list can be passed where one of them is expected.
\<close>

definition ChannelHeightWidth :: "string list" where
  "ChannelHeightWidth = [''c'', ''h'', ''w'']"

definition HeightWidthChannel :: "string list" where
  "HeightWidthChannel = [''h'', ''w'', ''c'']"

definition TransformHeightWidth :: "string list" where
  "TransformHeightWidth = [''t'', ''y'', ''x'']"

definition TransformWidthHeight :: "string list" where
  "TransformWidthHeight = [''t'', ''x'', ''y'']"

section \<open>class SlidingWindow\<close>

record 't SlidingWindow =
  x :: int
  y :: int
  w :: int
  h :: int
  dimOrder :: "string list"
  transform :: "'t option"

text \<open>\<^verbatim>\<open>SlidingWindow.indices(includeChannel=True)\<close>.\<close>

definition indices :: "'t SlidingWindow \<Rightarrow> bool \<Rightarrow> py_error + slice list" where
  "indices self includeChannel =
     (if dimOrder self = HeightWidthChannel then
        Inr [Slice (Some (y self)) (Some (y self + h self)),
             Slice (Some (x self)) (Some (x self + w self))]
      else if dimOrder self = ChannelHeightWidth then
        (if includeChannel then
           Inr [Slice None None,
                Slice (Some (y self)) (Some (y self + h self)),
                Slice (Some (x self)) (Some (x self + w self))]
         else
           Inr [Slice (Some (y self)) (Some (y self + h self)),
                Slice (Some (x self)) (Some (x self + w self))])
      else Inl (NameError ''Error''))"

text \<open>
  \<^verbatim>\<open>SlidingWindow.apply(matrix)\<close>. The array and what subscripting it does belong to
  the caller: \<open>getitem\<close> stands for \<^verbatim>\<open>matrix[...]\<close> and, like the bound transform, may
  itself raise. One type \<open>'a\<close> stands for every Python value that flows through.
\<close>

definition apply_window ::
  "('a \<Rightarrow> py_error + 'a) SlidingWindow \<Rightarrow> ('a \<Rightarrow> slice list \<Rightarrow> py_error + 'a) \<Rightarrow> 'a
     \<Rightarrow> py_error + 'a" where
  "apply_window self getitem matrix =
     (case indices self True of
        Inl e \<Rightarrow> Inl e
      | Inr idx \<Rightarrow>
          (case getitem matrix idx of
             Inl e \<Rightarrow> Inl e
           | Inr view \<Rightarrow>
               (case transform self of
                  Some f \<Rightarrow> f view
                | None \<Rightarrow> Inr view)))"

section \<open>The layout functions\<close>

text \<open>
  \<^verbatim>\<open>iterate_dims\<close> is a generator; its consumer drains it, so it is the list of what it
  yields, or the exception raised when it is first advanced.
\<close>

definition iterate_dims ::
  "int list \<Rightarrow> int list \<Rightarrow> 't list \<Rightarrow> string list \<Rightarrow> py_error + (int \<times> int \<times> 't) list" where
  "iterate_dims xVals yVals tVals iterorder =
     (if iterorder = TransformHeightWidth then
        Inr (concat (map (\<lambda>xv. concat (map (\<lambda>yv. map (\<lambda>t. (xv, yv, t)) tVals) yVals)) xVals))
      else if iterorder = TransformWidthHeight then
        Inr (concat (map (\<lambda>yv. concat (map (\<lambda>xv. map (\<lambda>t. (xv, yv, t)) tVals) xVals)) yVals))
      else Inl (NameError ''Error''))"

text \<open>
  \<^verbatim>\<open>generateForSize\<close>. The overlap fraction is a real number and
  \<^verbatim>\<open>int(math.floor(windowSize * overlapPercent))\<close> is the floor of the exact product:
  the rounding of the floating-point product is not modelled.
\<close>

definition generateForSize ::
  "int \<Rightarrow> int \<Rightarrow> string list \<Rightarrow> int \<Rightarrow> real \<Rightarrow> 't list \<Rightarrow> int option \<Rightarrow> int option
     \<Rightarrow> string list \<Rightarrow> py_error + 't SlidingWindow list" where
  "generateForSize width height dimOrd maxWindowSize overlapPercent transforms
       overrideWidth overrideHeight iterorder =
     (let windowSizeX = (case overrideWidth of None \<Rightarrow> maxWindowSize | Some v \<Rightarrow> v);
          windowSizeY = (case overrideHeight of None \<Rightarrow> maxWindowSize | Some v \<Rightarrow> v);
          windowSizeX = min windowSizeX width;
          windowSizeY = min windowSizeY height;
          windowOverlapX = \<lfloor>of_int windowSizeX * overlapPercent\<rfloor>;
          windowOverlapY = \<lfloor>of_int windowSizeY * overlapPercent\<rfloor>;
          stepSizeX = windowSizeX - windowOverlapX;
          stepSizeY = windowSizeY - windowOverlapY;
          lastX = width - windowSizeX;
          lastY = height - windowSizeY
      in (case py_range 0 (lastX + 1) stepSizeX of
           Inl e \<Rightarrow> Inl e
         | Inr xr \<Rightarrow>
        (case py_range 0 (lastY + 1) stepSizeY of
           Inl e \<Rightarrow> Inl e
         | Inr yr \<Rightarrow>
        (let xOffsets = (if length xr = 0 \<or> last xr \<noteq> lastX then xr @ [lastX] else xr);
             yOffsets = (if length yr = 0 \<or> last yr \<noteq> lastY then yr @ [lastY] else yr)
         in (case iterate_dims xOffsets yOffsets (None # map Some transforms) iterorder of
              Inl e \<Rightarrow> Inl e
            | Inr triples \<Rightarrow>
                Inr (map (\<lambda>(xOffset, yOffset, t).
                       \<lparr>x = xOffset, y = yOffset, w = windowSizeX, h = windowSizeY,
                        dimOrder = dimOrd, transform = t\<rparr>) triples))))))"


section \<open>Quantities the claims refer to\<close>

text \<open>
  Names for what \<open>generateForSize\<close> computes on one axis, so that statements can speak
  of the clipped window size, the overlap in pixels, the step and the offsets of an axis;
  \<open>generateForSize_unfold\<close> below shows that \<open>generateForSize\<close> is built from exactly these.
\<close>

definition windowSize :: "int \<Rightarrow> int option \<Rightarrow> int \<Rightarrow> int" where
  "windowSize maxWindowSize override extent =
     min (case override of None \<Rightarrow> maxWindowSize | Some v \<Rightarrow> v) extent"

definition windowOverlap :: "int \<Rightarrow> real \<Rightarrow> int" where
  "windowOverlap ws overlapPercent = \<lfloor>of_int ws * overlapPercent\<rfloor>"

definition stepSize :: "int \<Rightarrow> real \<Rightarrow> int" where
  "stepSize ws overlapPercent = ws - windowOverlap ws overlapPercent"

definition offsets :: "int \<Rightarrow> int \<Rightarrow> int \<Rightarrow> py_error + int list" where
  "offsets extent ws step =
     (case py_range 0 (extent - ws + 1) step of
        Inl e \<Rightarrow> Inl e
      | Inr r \<Rightarrow> Inr (if length r = 0 \<or> last r \<noteq> extent - ws then r @ [extent - ws] else r))"

definition mk_window ::
  "int \<Rightarrow> int \<Rightarrow> string list \<Rightarrow> int \<times> int \<times> 't option \<Rightarrow> 't SlidingWindow" where
  "mk_window wsx wsy dimOrd = (\<lambda>(xOffset, yOffset, t).
      \<lparr>x = xOffset, y = yOffset, w = wsx, h = wsy, dimOrder = dimOrd, transform = t\<rparr>)"

text \<open>The pixels of a window, and the invariants of a window against a dataset.\<close>

definition rect :: "'t SlidingWindow \<Rightarrow> (int \<times> int) set" where
  "rect win = {x win ..< x win + w win} \<times> {y win ..< y win + h win}"

definition window_ok :: "int \<Rightarrow> int \<Rightarrow> 't SlidingWindow \<Rightarrow> bool" where
  "window_ok width height win \<longleftrightarrow>
     0 < w win \<and> 0 < h win \<and> 0 \<le> x win \<and> 0 \<le> y win \<and>
     x win + w win \<le> width \<and> y win + h win \<le> height"



section \<open>Calls by reference\<close>





section \<open>How generateForSize is built\<close>

lemma generateForSize_unfold:
  "generateForSize width height dimOrd maxWindowSize p transforms ow oh iterorder =
     (let wsx = windowSize maxWindowSize ow width; wsy = windowSize maxWindowSize oh height in
      case offsets width wsx (stepSize wsx p) of
        Inl e \<Rightarrow> Inl e
      | Inr xs \<Rightarrow>
       (case offsets height wsy (stepSize wsy p) of
          Inl e \<Rightarrow> Inl e
        | Inr ys \<Rightarrow>
         (case iterate_dims xs ys (None # map Some transforms) iterorder of
            Inl e \<Rightarrow> Inl e
          | Inr triples \<Rightarrow> Inr (map (mk_window wsx wsy dimOrd) triples))))"
  by (simp add: generateForSize_def Let_def windowSize_def windowOverlap_def stepSize_def
      offsets_def mk_window_def split: sum.splits)

lemma set_range_up:
  "0 < step \<Longrightarrow> set (range_up i stop step) = {v. i \<le> v \<and> v < stop \<and> step dvd (v - i)}"
proof (induction i stop step rule: range_up.induct)
  case (1 i stop step)
  show ?case
  proof (cases "i < stop")
    case False
    then show ?thesis by (subst range_up.simps) auto
  next
    case True
    have IH: "set (range_up (i + step) stop step) = {v. i + step \<le> v \<and> v < stop \<and> step dvd (v - (i + step))}"
      using 1 True by simp
    have "set (range_up i stop step) = insert i (set (range_up (i + step) stop step))"
      using True 1(2) by (subst range_up.simps) simp
    also have "\<dots> = {v. i \<le> v \<and> v < stop \<and> step dvd (v - i)}"
    proof (rule set_eqI)
      fix v
      have d: "step dvd (v - (i + step)) \<longleftrightarrow> step dvd (v - i)"
        by (metis add_diff_cancel_right' diff_diff_eq dvd_diff_commute dvd_add_triv_right_iff diff_add_cancel)
      have e: "i \<le> v \<Longrightarrow> step dvd (v - i) \<Longrightarrow> v \<noteq> i \<Longrightarrow> i + step \<le> v"
        using 1(2) by (metis zdvd_imp_le diff_gt_0_iff_gt le_diff_eq less_le add.commute)
      show "v \<in> insert i (set (range_up (i + step) stop step)) \<longleftrightarrow> v \<in> {v. i \<le> v \<and> v < stop \<and> step dvd (v - i)}"
        unfolding IH using True 1(2) d e by auto
    qed
    finally show ?thesis .
  qed
qed


lemma range_down_empty: "\<not> stop < i \<Longrightarrow> range_down i stop step = []"
  by (subst range_down.simps) simp

lemma range_up_empty: "\<not> (0 < step \<and> i < stop) \<Longrightarrow> range_up i stop step = []"
  by (subst range_up.simps) simp

section \<open>The offsets of one axis\<close>

lemma offsets_zero_step: "offsets extent ws 0 = Inl ValueError"
  by (simp add: offsets_def py_range_def)

lemma offsets_set:
  assumes "step \<noteq> 0" "ws \<le> extent"
  shows "\<exists>xs. offsets extent ws step = Inr xs \<and> xs \<noteq> [] \<and>
           set xs = (if 0 < step then {v. 0 \<le> v \<and> v \<le> extent - ws \<and> step dvd v} else {})
                      \<union> {extent - ws}"
proof (cases "0 < step")
  case True
  define r where "r = range_up 0 (extent - ws + 1) step"
  have sr: "set r = {v. 0 \<le> v \<and> v \<le> extent - ws \<and> step dvd v}"
    unfolding r_def using set_range_up[OF True, of 0 "extent - ws + 1"] by auto
  have off: "offsets extent ws step =
      Inr (if length r = 0 \<or> last r \<noteq> extent - ws then r @ [extent - ws] else r)"
    using True by (simp add: offsets_def py_range_def r_def)
  show ?thesis
  proof (cases "length r = 0 \<or> last r \<noteq> extent - ws")
    case a: True
    then have "offsets extent ws step = Inr (r @ [extent - ws])" using off by simp
    moreover have "set (r @ [extent - ws]) = set r \<union> {extent - ws}" by simp
    ultimately show ?thesis using True by (simp add: sr)
  next
    case b: False
    then have ne: "r \<noteq> []" and "last r = extent - ws" by auto
    then have "extent - ws \<in> set r" using last_in_set by metis
    then have "set r = set r \<union> {extent - ws}" by blast
    moreover have "offsets extent ws step = Inr r" using off b by simp
    ultimately show ?thesis using True ne by (simp add: sr)
  qed
next
  case False
  then have neg: "step < 0" using assms(1) by simp
  have "range_down 0 (extent - ws + 1) step = []"
    using assms(2) by (intro range_down_empty) simp
  then show ?thesis using neg by (simp add: offsets_def py_range_def)
qed

lemma offsets_bounds:
  assumes "offsets extent ws step = Inr xs" "ws \<le> extent" "a \<in> set xs"
  shows "0 \<le> a \<and> a + ws \<le> extent"
proof -
  have "step \<noteq> 0" using assms(1) by (auto simp: offsets_zero_step)
  from offsets_set[OF this assms(2)] assms(1)
  have "set xs \<subseteq> {v. 0 \<le> v \<and> v \<le> extent - ws}"
    using assms(2) by (auto split: if_splits)
  with assms(3) show ?thesis by auto
qed

lemma offsets_cover:
  assumes "1 \<le> step" "step \<le> ws" "ws \<le> extent" "offsets extent ws step = Inr xs"
  shows "(\<Union>a\<in>set xs. {a..<a + ws}) = {0..<extent}"
proof (rule set_eqI)
  fix v
  have sx: "set xs = {v. 0 \<le> v \<and> v \<le> extent - ws \<and> step dvd v} \<union> {extent - ws}"
    using offsets_set[of step ws extent] assms by auto
  show "v \<in> (\<Union>a\<in>set xs. {a..<a + ws}) \<longleftrightarrow> v \<in> {0..<extent}"
  proof
    assume "v \<in> (\<Union>a\<in>set xs. {a..<a + ws})"
    then obtain a where a: "a \<in> set xs" "a \<le> v" "v < a + ws" by auto
    from offsets_bounds[OF assms(4,3) a(1)] a show "v \<in> {0..<extent}" by auto
  next
    assume v: "v \<in> {0..<extent}"
    show "v \<in> (\<Union>a\<in>set xs. {a..<a + ws})"
    proof (cases "extent - ws \<le> v")
      case True
      have "extent - ws \<in> set xs" using sx by simp
      moreover have "v \<in> {extent - ws..<extent - ws + ws}" using True v by simp
      ultimately show ?thesis by blast
    next
      case False
      define a where "a = (v div step) * step"
      have s0: "0 < step" using assms(1) by simp
      have m1: "v mod step < step" and m0: "0 \<le> v mod step" using s0 by simp_all
      have va: "v = a + v mod step" unfolding a_def by simp
      have a1: "a \<le> v" using va m0 by linarith
      have a2: "v < a + step" using va m1 by linarith
      have a0: "0 \<le> a" unfolding a_def using v s0 by (simp add: pos_imp_zdiv_nonneg_iff)
      have "a \<in> set xs" using sx a0 a1 False by (simp add: a_def)
      moreover have "v \<in> {a..<a + ws}" using a1 a2 assms(2) by simp
      ultimately show ?thesis by blast
    qed
  qed
qed

lemma step_le_windowSize:
  assumes "0 \<le> p" "p < 1" "1 \<le> stepSize ws p"
  shows "1 \<le> ws \<and> stepSize ws p \<le> ws"
proof -
  have pos: "1 \<le> ws"
  proof (rule ccontr)
    assume "\<not> 1 \<le> ws"
    then have "ws \<le> 0" by simp
    then have "real_of_int ws * 1 \<le> real_of_int ws * p"
      using assms(2) by (intro mult_left_mono_neg) simp_all
    then have "real_of_int ws \<le> real_of_int ws * p" by simp
    then have "ws \<le> \<lfloor>real_of_int ws * p\<rfloor>" by (simp add: le_floor_iff)
    then show False using assms(3) by (simp add: stepSize_def windowOverlap_def)
  qed
  then have "0 \<le> real_of_int ws * p" using assms(1) by simp
  then have "0 \<le> \<lfloor>real_of_int ws * p\<rfloor>" by simp
  then show ?thesis using pos by (simp add: stepSize_def windowOverlap_def)
qed

section \<open>The windows of a layout\<close>

lemma windowSize_le: "windowSize m ov extent \<le> extent"
  by (simp add: windowSize_def)

lemma iterate_dims_set:
  "iterate_dims xs ys ts io = Inr tr \<Longrightarrow> set tr = set xs \<times> set ys \<times> set ts"
  by (fastforce simp: iterate_dims_def image_iff split: if_splits)

lemma iterate_dims_supported:
  "io = TransformHeightWidth \<or> io = TransformWidthHeight \<Longrightarrow> \<exists>tr. iterate_dims xs ys ts io = Inr tr"
  by (auto simp: iterate_dims_def)

lemma generateForSize_Inr:
  assumes "generateForSize width height dimOrd m p transforms ow oh io = Inr wins"
  shows "\<exists>xs ys tr.
           offsets width (windowSize m ow width) (stepSize (windowSize m ow width) p) = Inr xs \<and>
           offsets height (windowSize m oh height) (stepSize (windowSize m oh height) p) = Inr ys \<and>
           iterate_dims xs ys (None # map Some transforms) io = Inr tr \<and>
           wins = map (mk_window (windowSize m ow width) (windowSize m oh height) dimOrd) tr"
  using assms unfolding generateForSize_unfold Let_def
  by (auto split: sum.splits)

lemma generateForSize_returns:
  assumes "stepSize (windowSize m ow width) p \<noteq> 0" "stepSize (windowSize m oh height) p \<noteq> 0"
    "io = TransformHeightWidth \<or> io = TransformWidthHeight"
  shows "\<exists>wins. generateForSize width height dimOrd m p transforms ow oh io = Inr wins"
proof -
  obtain xs where xs: "offsets width (windowSize m ow width) (stepSize (windowSize m ow width) p) = Inr xs"
    using offsets_set[OF assms(1) windowSize_le] by blast
  obtain ys where ys: "offsets height (windowSize m oh height) (stepSize (windowSize m oh height) p) = Inr ys"
    using offsets_set[OF assms(2) windowSize_le] by blast
  obtain tr where "iterate_dims xs ys (None # map Some transforms) io = Inr tr"
    using iterate_dims_supported[OF assms(3)] by blast
  then show ?thesis unfolding generateForSize_unfold Let_def by (simp add: xs ys)
qed

lemma Union_rect_product:
  assumes "T \<noteq> {}"
  shows "(\<Union>win \<in> mk_window wsx wsy d ` (X \<times> Y \<times> T). rect win) =
         (\<Union>a\<in>X. {a..<a + wsx}) \<times> (\<Union>b\<in>Y. {b..<b + wsy})"
proof -
  obtain t where t: "t \<in> T" using assms by blast
  have r: "\<And>a b t. rect (mk_window wsx wsy d (a, b, t)) = {a..<a + wsx} \<times> {b..<b + wsy}"
    by (simp add: rect_def mk_window_def)
  show ?thesis
  proof (intro set_eqI iffI)
    fix q assume "q \<in> (\<Union>win \<in> mk_window wsx wsy d ` (X \<times> Y \<times> T). rect win)"
    then obtain pr where pr: "pr \<in> X \<times> Y \<times> T" "q \<in> rect (mk_window wsx wsy d pr)"
      by auto
    obtain a b t' where "pr = (a, b, t')" by (cases pr) auto
    with pr have "a \<in> X" "b \<in> Y" "q \<in> rect (mk_window wsx wsy d (a, b, t'))"
      by auto
    then show "q \<in> (\<Union>a\<in>X. {a..<a + wsx}) \<times> (\<Union>b\<in>Y. {b..<b + wsy})"
      unfolding r by blast
  next
    fix q assume "q \<in> (\<Union>a\<in>X. {a..<a + wsx}) \<times> (\<Union>b\<in>Y. {b..<b + wsy})"
    then obtain a b where ab: "a \<in> X" "b \<in> Y" "q \<in> {a..<a + wsx} \<times> {b..<b + wsy}"
      by blast
    then have "(a, b, t) \<in> X \<times> Y \<times> T" using t by simp
    moreover have "q \<in> rect (mk_window wsx wsy d (a, b, t))" using ab(3) unfolding r .
    ultimately show "q \<in> (\<Union>win \<in> mk_window wsx wsy d ` (X \<times> Y \<times> T). rect win)"
      by blast
  qed
qed

section \<open>Positions in the nested loops\<close>

lemma concat_map_uniform:
  assumes "\<And>a. a \<in> set xs \<Longrightarrow> length (f a) = n"
  shows "length (concat (map f xs)) = length xs * n"
    and "i < length xs \<Longrightarrow> l < n \<Longrightarrow> concat (map f xs) ! (i * n + l) = f (xs ! i) ! l"
  using assms
proof (induction xs arbitrary: i)
  case Nil
  { case 1 then show ?case by simp }
  { case 2 then show ?case by simp }
next
  case (Cons a xs)
  { case 1
    then show ?case using Cons.IH(1)[of] by simp }
  { case 2
    show ?case
    proof (cases i)
      case 0
      then show ?thesis using 2 by (simp add: nth_append)
    next
      case (Suc i')
      have "concat (map f (a # xs)) ! (i * n + l) = concat (map f xs) ! (i' * n + l)"
        using 2(3) Suc by (simp add: nth_append)
      also have "\<dots> = f (xs ! i') ! l"
        using Cons.IH(2)[of i'] 2 Suc by simp
      finally show ?thesis using Suc by simp
    qed }
qed

lemma pos_bound: "j < ny \<Longrightarrow> l < nt \<Longrightarrow> j * nt + l < ny * (nt::nat)"
proof -
  assume a: "j < ny" "l < nt"
  then have "j * nt + l < j * nt + nt" by simp
  also have "\<dots> = (Suc j) * nt" by simp
  also have "\<dots> \<le> ny * nt" using a(1) by (intro mult_le_mono1) simp
  finally show ?thesis .
qed

lemma iterate_dims_x_outer:
  assumes "iterate_dims xs ys ts TransformHeightWidth = Inr tr"
  shows "length tr = length xs * length ys * length ts"
    and "i < length xs \<Longrightarrow> j < length ys \<Longrightarrow> l < length ts \<Longrightarrow>
         tr ! ((i * length ys + j) * length ts + l) = (xs ! i, ys ! j, ts ! l)"
proof -
  let ?g = "\<lambda>xv yv. map (\<lambda>t. (xv, yv, t)) ts"
  let ?f = "\<lambda>xv. concat (map (?g xv) ys)"
  have tr: "tr = concat (map ?f xs)" using assms by (simp add: iterate_dims_def)
  have lf: "\<And>xv. length (?f xv) = length ys * length ts"
    by (rule concat_map_uniform(1)) simp
  show "length tr = length xs * length ys * length ts"
  proof -
    have "length (concat (map ?f xs)) = length xs * (length ys * length ts)"
      by (rule concat_map_uniform(1)) (rule lf)
    then show ?thesis unfolding tr by (simp add: mult.assoc)
  qed
  assume b: "i < length xs" "j < length ys" "l < length ts"
  have pe: "(i * length ys + j) * length ts + l = i * (length ys * length ts) + (j * length ts + l)"
    by (simp add: algebra_simps)
  have "concat (map ?f xs) ! (i * (length ys * length ts) + (j * length ts + l))
      = ?f (xs ! i) ! (j * length ts + l)"
    by (rule concat_map_uniform(2)[where n = "length ys * length ts"])
      (simp_all add: lf b pos_bound[OF b(2,3)])
  then have "tr ! ((i * length ys + j) * length ts + l) = ?f (xs ! i) ! (j * length ts + l)"
    by (simp only: tr pe)
  also have "\<dots> = ?g (xs ! i) (ys ! j) ! l"
    by (rule concat_map_uniform(2)[where n = "length ts"]) (simp_all add: b)
  also have "\<dots> = (xs ! i, ys ! j, ts ! l)" using b by simp
  finally show "tr ! ((i * length ys + j) * length ts + l) = (xs ! i, ys ! j, ts ! l)" .
qed

lemma distinct_orders: "TransformWidthHeight \<noteq> TransformHeightWidth"
  by (simp add: TransformWidthHeight_def TransformHeightWidth_def)

lemma iterate_dims_y_outer:
  assumes "iterate_dims xs ys ts TransformWidthHeight = Inr tr"
  shows "length tr = length xs * length ys * length ts"
    and "i < length xs \<Longrightarrow> j < length ys \<Longrightarrow> l < length ts \<Longrightarrow>
         tr ! ((j * length xs + i) * length ts + l) = (xs ! i, ys ! j, ts ! l)"
proof -
  let ?g = "\<lambda>yv xv. map (\<lambda>t. (xv, yv, t)) ts"
  let ?f = "\<lambda>yv. concat (map (?g yv) xs)"
  have tr: "tr = concat (map ?f ys)" using assms by (simp add: iterate_dims_def distinct_orders)
  have lf: "\<And>yv. length (?f yv) = length xs * length ts"
    by (rule concat_map_uniform(1)) simp
  show "length tr = length xs * length ys * length ts"
  proof -
    have "length (concat (map ?f ys)) = length ys * (length xs * length ts)"
      by (rule concat_map_uniform(1)) (rule lf)
    then show ?thesis unfolding tr by (simp add: mult.assoc mult.left_commute)
  qed
  assume b: "i < length xs" "j < length ys" "l < length ts"
  have pe: "(j * length xs + i) * length ts + l = j * (length xs * length ts) + (i * length ts + l)"
    by (simp add: algebra_simps)
  have "concat (map ?f ys) ! (j * (length xs * length ts) + (i * length ts + l))
      = ?f (ys ! j) ! (i * length ts + l)"
    by (rule concat_map_uniform(2)[where n = "length xs * length ts"])
      (simp_all add: lf b pos_bound[OF b(1,3)])
  then have "tr ! ((j * length xs + i) * length ts + l) = ?f (ys ! j) ! (i * length ts + l)"
    by (simp only: tr pe)
  also have "\<dots> = ?g (ys ! j) (xs ! i) ! l"
    by (rule concat_map_uniform(2)[where n = "length ts"]) (simp_all add: b)
  also have "\<dots> = (xs ! i, ys ! j, ts ! l)" using b by simp
  finally show "tr ! ((j * length xs + i) * length ts + l) = (xs ! i, ys ! j, ts ! l)" .
qed

section \<open>Neighbouring offsets\<close>




lemma offsets_error: "offsets extent ws step = Inl e \<Longrightarrow> e = ValueError"
  by (auto simp: offsets_def py_range_def split: if_splits)

lemma distinct_dim_orders: "ChannelHeightWidth \<noteq> HeightWidthChannel"
  by (simp add: ChannelHeightWidth_def HeightWidthChannel_def)

lemma indices_unsupported:
  "dimOrder self \<noteq> HeightWidthChannel \<Longrightarrow> dimOrder self \<noteq> ChannelHeightWidth \<Longrightarrow>
     indices self includeChannel = Inl (NameError ''Error'')"
  by (simp add: indices_def)

lemma iterate_dims_unsupported:
  "iterorder \<noteq> TransformHeightWidth \<Longrightarrow> iterorder \<noteq> TransformWidthHeight \<Longrightarrow>
     iterate_dims xVals yVals tVals iterorder = Inl (NameError ''Error'')"
  by (simp add: iterate_dims_def)

lemma set_slice_positions:
  assumes "0 \<le> a" "0 \<le> e" "a + e \<le> n"
  shows "set (slice_positions (Slice (Some a) (Some (a + e))) n) = {a..<a + e}"
proof -
  have "norm_bound n a = a" "norm_bound n (a + e) = a + e"
    using assms by (simp_all add: norm_bound_def)
  then show ?thesis by auto
qed

section \<open>The claims\<close>

text \<open>
  Claim C1 (coverage). For a dataset of width and height at least 1 and an overlap
  fraction of the design's range \<open>[0, 1)\<close>, whenever the step computed on each axis is at
  least 1 (and the iteration order is one of the two supported ones, so that windows are
  returned at all), \<open>generateForSize\<close> returns a list of windows, and the union of their
  rectangles is exactly \<open>[0, width) \<times> [0, height)\<close>: every pixel lies in some window and
  no window reaches outside.
\<close>

theorem generateForSize_coverage:
  assumes "1 \<le> width" "1 \<le> height" "0 \<le> overlapPercent" "overlapPercent < 1"
    and "1 \<le> stepSize (windowSize maxWindowSize overrideWidth width) overlapPercent"
    and "1 \<le> stepSize (windowSize maxWindowSize overrideHeight height) overlapPercent"
    and "iterorder = TransformHeightWidth \<or> iterorder = TransformWidthHeight"
  shows "\<exists>wins. generateForSize width height dimOrd maxWindowSize overlapPercent transforms
                  overrideWidth overrideHeight iterorder = Inr wins \<and>
               (\<Union>win \<in> set wins. rect win) = {0..<width} \<times> {0..<height}"
proof -
  let ?wsx = "windowSize maxWindowSize overrideWidth width"
  let ?wsy = "windowSize maxWindowSize overrideHeight height"
  obtain wins where wins: "generateForSize width height dimOrd maxWindowSize overlapPercent
      transforms overrideWidth overrideHeight iterorder = Inr wins"
    using generateForSize_returns[of maxWindowSize overrideWidth width overlapPercent
        overrideHeight height iterorder] assms(5,6,7)
    by fastforce
  from generateForSize_Inr[OF wins] obtain xs ys tr where
    xs: "offsets width ?wsx (stepSize ?wsx overlapPercent) = Inr xs" and
    ys: "offsets height ?wsy (stepSize ?wsy overlapPercent) = Inr ys" and
    tr: "iterate_dims xs ys (None # map Some transforms) iterorder = Inr tr" and
    w: "wins = map (mk_window ?wsx ?wsy dimOrd) tr"
    by blast
  have sx: "stepSize ?wsx overlapPercent \<le> ?wsx"
    using step_le_windowSize[OF assms(3,4,5)] by simp
  have sy: "stepSize ?wsy overlapPercent \<le> ?wsy"
    using step_le_windowSize[OF assms(3,4,6)] by simp
  have cx: "(\<Union>a\<in>set xs. {a..<a + ?wsx}) = {0..<width}"
    by (rule offsets_cover[OF assms(5) sx windowSize_le xs])
  have cy: "(\<Union>b\<in>set ys. {b..<b + ?wsy}) = {0..<height}"
    by (rule offsets_cover[OF assms(6) sy windowSize_le ys])
  have "set wins = mk_window ?wsx ?wsy dimOrd ` (set xs \<times> set ys \<times> set (None # map Some transforms))"
    unfolding w using iterate_dims_set[OF tr] by simp
  then have "(\<Union>win \<in> set wins. rect win) =
      (\<Union>a\<in>set xs. {a..<a + ?wsx}) \<times> (\<Union>b\<in>set ys. {b..<b + ?wsy})"
    using Union_rect_product[of "set (None # map Some transforms)" ?wsx ?wsy dimOrd "set xs" "set ys"]
    by simp
  then show ?thesis using wins cx cy by simp
qed

theorem generateForSize_coverage_witness:
  "(1::int) \<le> 10 \<and> (1::int) \<le> 7 \<and> (0::real) \<le> 1 / 2 \<and> (1 / 2 :: real) < 1 \<and>
   1 \<le> stepSize (windowSize 4 None 10) (1 / 2) \<and>
   1 \<le> stepSize (windowSize 4 None 7) (1 / 2) \<and>
   (\<exists>wins. generateForSize 10 7 ChannelHeightWidth 4 (1 / 2) [''flip''] None None
              TransformWidthHeight = Inr wins \<and>
           (\<Union>win \<in> set wins. rect win) = {0..<10} \<times> {0..<7})"
  using generateForSize_coverage [of 10 7 "1 / 2" 4 None None TransformWidthHeight
      ChannelHeightWidth "[''flip'']"]
  by (simp add: stepSize_def windowSize_def windowOverlap_def)

text \<open>
  Claim C2 (window invariants). For width and height at least 1, clipped window sizes at
  least 1 and steps at least 1, every window that \<open>generateForSize\<close> returns has
  \<open>w > 0\<close>, \<open>h > 0\<close>, \<open>x \<ge> 0\<close>, \<open>y \<ge> 0\<close>, \<open>x + w \<le> width\<close> and \<open>y + h \<le> height\<close>;
  and under a supported iteration order it does return a non-empty list.
\<close>

theorem generateForSize_windows_in_bounds:
  assumes "1 \<le> width" "1 \<le> height"
    and "1 \<le> windowSize maxWindowSize overrideWidth width"
    and "1 \<le> windowSize maxWindowSize overrideHeight height"
    and "1 \<le> stepSize (windowSize maxWindowSize overrideWidth width) overlapPercent"
    and "1 \<le> stepSize (windowSize maxWindowSize overrideHeight height) overlapPercent"
  shows "(\<forall>wins win. generateForSize width height dimOrd maxWindowSize overlapPercent transforms
                  overrideWidth overrideHeight iterorder = Inr wins \<longrightarrow> win \<in> set wins \<longrightarrow>
              window_ok width height win) \<and>
         (iterorder = TransformHeightWidth \<or> iterorder = TransformWidthHeight \<longrightarrow>
           (\<exists>wins. generateForSize width height dimOrd maxWindowSize overlapPercent transforms
                  overrideWidth overrideHeight iterorder = Inr wins \<and> wins \<noteq> []))"
proof (intro conjI allI impI)
  let ?wsx = "windowSize maxWindowSize overrideWidth width"
  let ?wsy = "windowSize maxWindowSize overrideHeight height"
  fix wins :: "'a SlidingWindow list" and win
  assume wins: "generateForSize width height dimOrd maxWindowSize overlapPercent transforms
                  overrideWidth overrideHeight iterorder = Inr wins" and win: "win \<in> set wins"
  from generateForSize_Inr[OF wins] obtain xs ys tr where
    xs: "offsets width ?wsx (stepSize ?wsx overlapPercent) = Inr xs" and
    ys: "offsets height ?wsy (stepSize ?wsy overlapPercent) = Inr ys" and
    tr: "iterate_dims xs ys (None # map Some transforms) iterorder = Inr tr" and
    w: "wins = map (mk_window ?wsx ?wsy dimOrd) tr"
    by blast
  from win w obtain a b t where abt: "(a, b, t) \<in> set tr" "win = mk_window ?wsx ?wsy dimOrd (a, b, t)"
    by auto
  then have "a \<in> set xs" "b \<in> set ys" using iterate_dims_set[OF tr] by auto
  then have "0 \<le> a \<and> a + ?wsx \<le> width" "0 \<le> b \<and> b + ?wsy \<le> height"
    using offsets_bounds[OF xs windowSize_le] offsets_bounds[OF ys windowSize_le] by auto
  then show "window_ok width height win"
    using assms(3,4) abt(2) by (simp add: window_ok_def mk_window_def)
next
  let ?wsx = "windowSize maxWindowSize overrideWidth width"
  let ?wsy = "windowSize maxWindowSize overrideHeight height"
  assume io: "iterorder = TransformHeightWidth \<or> iterorder = TransformWidthHeight"
  obtain wins :: "'a SlidingWindow list" where wins: "generateForSize width height dimOrd maxWindowSize overlapPercent
      transforms overrideWidth overrideHeight iterorder = Inr wins"
    using generateForSize_returns[of maxWindowSize overrideWidth width overlapPercent
        overrideHeight height iterorder] assms(5,6) io
    by fastforce
  from generateForSize_Inr[OF wins] obtain xs ys tr where
    xs: "offsets width ?wsx (stepSize ?wsx overlapPercent) = Inr xs" and
    ys: "offsets height ?wsy (stepSize ?wsy overlapPercent) = Inr ys" and
    tr: "iterate_dims xs ys (None # map Some transforms) iterorder = Inr tr" and
    w: "wins = map (mk_window ?wsx ?wsy dimOrd) tr"
    by blast
  have "xs \<noteq> []" using offsets_set[of "stepSize ?wsx overlapPercent" ?wsx width] xs assms(5) windowSize_le[of maxWindowSize overrideWidth width] by auto
  moreover have "ys \<noteq> []" using offsets_set[of "stepSize ?wsy overlapPercent" ?wsy height] ys assms(6) windowSize_le[of maxWindowSize overrideHeight height] by auto
  ultimately have "set xs \<times> set ys \<times> set (None # map Some transforms) \<noteq> {}"
    by (simp add: Sigma_empty_iff)
  then have "set tr \<noteq> {}" using iterate_dims_set[OF tr] by simp
  then have "tr \<noteq> []" by auto
  then show "\<exists>wins. generateForSize width height dimOrd maxWindowSize overlapPercent transforms
                  overrideWidth overrideHeight iterorder = Inr wins \<and> wins \<noteq> []"
    using wins w by simp
qed

theorem generateForSize_windows_in_bounds_witness:
  "(1::int) \<le> 10 \<and> (1::int) \<le> 7 \<and> 1 \<le> windowSize 4 None 10 \<and> 1 \<le> windowSize 4 None 7 \<and>
   1 \<le> stepSize (windowSize 4 None 10) (1 / 2) \<and>
   1 \<le> stepSize (windowSize 4 None 7) (1 / 2) \<and>
   (\<exists>wins. generateForSize 10 7 ChannelHeightWidth 4 (1 / 2) [''flip''] None None
              TransformWidthHeight = Inr wins \<and> wins \<noteq> [] \<and>
           (\<forall>win \<in> set wins. window_ok 10 7 win))"
  using generateForSize_windows_in_bounds [of 10 7 4 None None "1 / 2"
      ChannelHeightWidth "[''flip'']" TransformWidthHeight]
  by (simp add: stepSize_def windowSize_def windowOverlap_def) blast

text \<open>
  Claim C3 (iteration order). With \<open>xs\<close> and \<open>ys\<close> the offsets of the two axes and
  \<open>n = 1 + length transforms\<close>, the returned list has \<open>length xs * length ys * n\<close>
  windows. Under \<open>TransformHeightWidth\<close> the window for the \<open>i\<close>-th x-offset, the \<open>j\<close>-th
  y-offset and the \<open>l\<close>-th entry of \<open>[None] + transforms\<close> stands at position
  \<open>(i * length ys + j) * n + l\<close>: x changes slowest, then y, the transform fastest, the
  identity entry first. Under \<open>TransformWidthHeight\<close> it stands at
  \<open>(j * length xs + i) * n + l\<close>: y changes slowest, then x. For offsets \<open>{0, 5}\<close> on
  both axes and the transform list \<open>[t1]\<close> the two orders give the sequences of the
  specification's example.
\<close>

theorem generateForSize_iteration_order:
  assumes "generateForSize width height dimOrd maxWindowSize overlapPercent transforms
             overrideWidth overrideHeight iterorder = Inr wins"
    and "offsets width (windowSize maxWindowSize overrideWidth width)
           (stepSize (windowSize maxWindowSize overrideWidth width) overlapPercent) = Inr xs"
    and "offsets height (windowSize maxWindowSize overrideHeight height)
           (stepSize (windowSize maxWindowSize overrideHeight height) overlapPercent) = Inr ys"
  shows "length wins = length xs * length ys * Suc (length transforms) \<and>
    (\<forall>i<length xs. \<forall>j<length ys. \<forall>l<Suc (length transforms).
       (iterorder = TransformHeightWidth \<longrightarrow>
          wins ! ((i * length ys + j) * Suc (length transforms) + l) =
            \<lparr>x = xs ! i, y = ys ! j, w = windowSize maxWindowSize overrideWidth width,
             h = windowSize maxWindowSize overrideHeight height, dimOrder = dimOrd,
             transform = (None # map Some transforms) ! l\<rparr>) \<and>
       (iterorder = TransformWidthHeight \<longrightarrow>
          wins ! ((j * length xs + i) * Suc (length transforms) + l) =
            \<lparr>x = xs ! i, y = ys ! j, w = windowSize maxWindowSize overrideWidth width,
             h = windowSize maxWindowSize overrideHeight height, dimOrder = dimOrd,
             transform = (None # map Some transforms) ! l\<rparr>)) \<and>
    iterate_dims [0, 5] [0, 5] [None, Some t1] TransformHeightWidth =
      Inr [(0, 0, None), (0, 0, Some t1), (0, 5, None), (0, 5, Some t1),
           (5, 0, None), (5, 0, Some t1), (5, 5, None), (5, 5, Some t1)] \<and>
    iterate_dims [0, 5] [0, 5] [None, Some t1] TransformWidthHeight =
      Inr [(0, 0, None), (0, 0, Some t1), (5, 0, None), (5, 0, Some t1),
           (0, 5, None), (0, 5, Some t1), (5, 5, None), (5, 5, Some t1)]"
proof -
  let ?wsx = "windowSize maxWindowSize overrideWidth width"
  let ?wsy = "windowSize maxWindowSize overrideHeight height"
  let ?ts = "None # map Some transforms"
  let ?n = "Suc (length transforms)"
  from generateForSize_Inr[OF assms(1)] assms(2,3) obtain tr where
    tr: "iterate_dims xs ys ?ts iterorder = Inr tr" and
    w: "wins = map (mk_window ?wsx ?wsy dimOrd) tr"
    by auto
  have lts: "length ?ts = ?n" by simp
  have io: "iterorder = TransformHeightWidth \<or> iterorder = TransformWidthHeight"
    using tr by (auto simp: iterate_dims_def split: if_splits)
  have len: "length tr = length xs * length ys * ?n"
    using io iterate_dims_x_outer(1)[of xs ys ?ts tr] iterate_dims_y_outer(1)[of xs ys ?ts tr] tr
    unfolding lts by blast
  have A: "length wins = length xs * length ys * ?n" using len w by simp
  have B: "wins ! ((i * length ys + j) * ?n + l) = \<lparr>x = xs ! i, y = ys ! j, w = ?wsx,
             h = ?wsy, dimOrder = dimOrd, transform = ?ts ! l\<rparr>"
    if "i < length xs" "j < length ys" "l < ?n" "iterorder = TransformHeightWidth" for i j l
  proof -
    have "(i * length ys + j) * ?n + l < length xs * length ys * ?n"
      using pos_bound[OF pos_bound[OF that(1,2)] that(3)] by simp
    then have "wins ! ((i * length ys + j) * ?n + l) = mk_window ?wsx ?wsy dimOrd (tr ! ((i * length ys + j) * ?n + l))"
      unfolding w using len by simp
    also have "tr ! ((i * length ys + j) * ?n + l) = (xs ! i, ys ! j, ?ts ! l)"
      using iterate_dims_x_outer(2)[of xs ys ?ts tr i j l] tr that unfolding lts by simp
    finally show ?thesis by (simp add: mk_window_def)
  qed
  have C: "wins ! ((j * length xs + i) * ?n + l) = \<lparr>x = xs ! i, y = ys ! j, w = ?wsx,
             h = ?wsy, dimOrder = dimOrd, transform = ?ts ! l\<rparr>"
    if "i < length xs" "j < length ys" "l < ?n" "iterorder = TransformWidthHeight" for i j l
  proof -
    have "(j * length xs + i) * ?n + l < length ys * length xs * ?n"
      using pos_bound[OF pos_bound[OF that(2,1)] that(3)] by simp
    then have "wins ! ((j * length xs + i) * ?n + l) = mk_window ?wsx ?wsy dimOrd (tr ! ((j * length xs + i) * ?n + l))"
      unfolding w using len by (simp add: mult.commute)
    also have "tr ! ((j * length xs + i) * ?n + l) = (xs ! i, ys ! j, ?ts ! l)"
      using iterate_dims_y_outer(2)[of xs ys ?ts tr i j l] tr that unfolding lts by simp
    finally show ?thesis by (simp add: mk_window_def)
  qed
  have D: "iterate_dims [0, 5] [0, 5] [None, Some t1] TransformHeightWidth =
      Inr [(0, 0, None), (0, 0, Some t1), (0, 5, None), (0, 5, Some t1),
           (5, 0, None), (5, 0, Some t1), (5, 5, None), (5, 5, Some t1)]"
    by (simp add: iterate_dims_def)
  have E: "iterate_dims [0, 5] [0, 5] [None, Some t1] TransformWidthHeight =
      Inr [(0, 0, None), (0, 0, Some t1), (5, 0, None), (5, 0, Some t1),
           (0, 5, None), (0, 5, Some t1), (5, 5, None), (5, 5, Some t1)]"
    by (simp add: iterate_dims_def distinct_orders)
  show ?thesis using A B C D E by blast
qed

theorem generateForSize_iteration_order_witness:
  "generateForSize 10 5 ChannelHeightWidth 5 0 [''t1''] None None TransformHeightWidth =
     Inr [\<lparr>x = 0, y = 0, w = 5, h = 5, dimOrder = ChannelHeightWidth, transform = None\<rparr>,
          \<lparr>x = 0, y = 0, w = 5, h = 5, dimOrder = ChannelHeightWidth, transform = Some ''t1''\<rparr>,
          \<lparr>x = 5, y = 0, w = 5, h = 5, dimOrder = ChannelHeightWidth, transform = None\<rparr>,
          \<lparr>x = 5, y = 0, w = 5, h = 5, dimOrder = ChannelHeightWidth, transform = Some ''t1''\<rparr>] \<and>
   offsets 10 (windowSize 5 None 10) (stepSize (windowSize 5 None 10) 0) = Inr [0, 5] \<and>
   offsets 5 (windowSize 5 None 5) (stepSize (windowSize 5 None 5) 0) = Inr [0] \<and>
   [\<lparr>x = 0, y = 0, w = 5, h = 5, dimOrder = ChannelHeightWidth, transform = None\<rparr>,
    \<lparr>x = 0, y = 0, w = 5, h = 5, dimOrder = ChannelHeightWidth, transform = Some ''t1''\<rparr>,
    \<lparr>x = 5, y = 0, w = 5, h = 5, dimOrder = ChannelHeightWidth, transform = None\<rparr>,
    \<lparr>x = 5, y = 0, w = 5, h = 5, dimOrder = ChannelHeightWidth, transform = Some ''t1''\<rparr>]
     ! ((1 * length [0::int] + 0) * Suc (length [''t1'']) + 1) =
   \<lparr>x = [0, 5] ! 1, y = [0] ! 0, w = 5, h = 5, dimOrder = ChannelHeightWidth,
    transform = (None # map Some [''t1'']) ! 1\<rparr>"
proof -
  have g: "generateForSize 10 5 ChannelHeightWidth 5 0 [''t1''] None None TransformHeightWidth =
     Inr [\<lparr>x = 0, y = 0, w = 5, h = 5, dimOrder = ChannelHeightWidth, transform = None\<rparr>,
          \<lparr>x = 0, y = 0, w = 5, h = 5, dimOrder = ChannelHeightWidth, transform = Some ''t1''\<rparr>,
          \<lparr>x = 5, y = 0, w = 5, h = 5, dimOrder = ChannelHeightWidth, transform = None\<rparr>,
          \<lparr>x = 5, y = 0, w = 5, h = 5, dimOrder = ChannelHeightWidth, transform = Some ''t1''\<rparr>]"
    by (simp add: generateForSize_def py_range_def range_up.simps iterate_dims_def Let_def)
  have ox: "offsets 10 (windowSize 5 None 10) (stepSize (windowSize 5 None 10) 0) = Inr [0, 5]"
    by (simp add: offsets_def windowSize_def stepSize_def windowOverlap_def py_range_def
        range_up.simps)
  have oy: "offsets 5 (windowSize 5 None 5) (stepSize (windowSize 5 None 5) 0) = Inr [0]"
    by (simp add: offsets_def windowSize_def stepSize_def windowOverlap_def py_range_def
        range_up.simps)
  from generateForSize_iteration_order [OF g ox oy, of "''t1''"]
  have "\<forall>i<length [0, 5::int]. \<forall>j<length [0::int]. \<forall>l<Suc (length [''t1'']).
       [\<lparr>x = 0, y = 0, w = 5, h = 5, dimOrder = ChannelHeightWidth, transform = None\<rparr>,
        \<lparr>x = 0, y = 0, w = 5, h = 5, dimOrder = ChannelHeightWidth, transform = Some ''t1''\<rparr>,
        \<lparr>x = 5, y = 0, w = 5, h = 5, dimOrder = ChannelHeightWidth, transform = None\<rparr>,
        \<lparr>x = 5, y = 0, w = 5, h = 5, dimOrder = ChannelHeightWidth, transform = Some ''t1''\<rparr>]
         ! ((i * length [0::int] + j) * Suc (length [''t1'']) + l) =
       \<lparr>x = [0, 5] ! i, y = [0] ! j, w = windowSize 5 None 10, h = windowSize 5 None 5,
        dimOrder = ChannelHeightWidth, transform = (None # map Some [''t1'']) ! l\<rparr>"
    by blast
  then have "[\<lparr>x = 0, y = 0, w = 5, h = 5, dimOrder = ChannelHeightWidth, transform = None\<rparr>,
        \<lparr>x = 0, y = 0, w = 5, h = 5, dimOrder = ChannelHeightWidth, transform = Some ''t1''\<rparr>,
        \<lparr>x = 5, y = 0, w = 5, h = 5, dimOrder = ChannelHeightWidth, transform = None\<rparr>,
        \<lparr>x = 5, y = 0, w = 5, h = 5, dimOrder = ChannelHeightWidth, transform = Some ''t1''\<rparr>]
         ! ((1 * length [0::int] + 0) * Suc (length [''t1'']) + 1) =
       \<lparr>x = [0, 5] ! 1, y = [0] ! 0, w = windowSize 5 None 10, h = windowSize 5 None 5,
        dimOrder = ChannelHeightWidth, transform = (None # map Some [''t1'']) ! 1\<rparr>"
    by (simp add: windowSize_def)
  moreover have "windowSize 5 None 10 = 5" "windowSize 5 None 5 = 5"
    by (simp_all add: windowSize_def)
  ultimately show ?thesis using g ox oy by simp
qed



text \<open>
  Claim C5 (index specification). For a channel-first window, \<open>indices\<close> returns the
  full range followed by the row range \<open>slice(y, y + h)\<close> and the column range
  \<open>slice(x, x + w)\<close> when the channel axis is included, and only the row and column ranges
  when it is not; for a channel-last window it returns the row and column ranges whatever
  the flag. Each range is half-open: on an axis that contains it, \<open>slice(y, y + h)\<close>
  selects exactly the positions \<open>y \<le> i < y + h\<close>.
\<close>

theorem indices_index_spec:
  "(dimOrder self = ChannelHeightWidth \<longrightarrow>
      indices self True =
        Inr [Slice None None,
             Slice (Some (y self)) (Some (y self + h self)),
             Slice (Some (x self)) (Some (x self + w self))] \<and>
      indices self False =
        Inr [Slice (Some (y self)) (Some (y self + h self)),
             Slice (Some (x self)) (Some (x self + w self))]) \<and>
   (dimOrder self = HeightWidthChannel \<longrightarrow>
      indices self includeChannel =
        Inr [Slice (Some (y self)) (Some (y self + h self)),
             Slice (Some (x self)) (Some (x self + w self))]) \<and>
   (0 \<le> y self \<and> 0 \<le> h self \<and> y self + h self \<le> rows \<longrightarrow>
      set (slice_positions (Slice (Some (y self)) (Some (y self + h self))) rows) =
        {y self ..< y self + h self}) \<and>
   (0 \<le> x self \<and> 0 \<le> w self \<and> x self + w self \<le> cols \<longrightarrow>
      set (slice_positions (Slice (Some (x self)) (Some (x self + w self))) cols) =
        {x self ..< x self + w self})"
  using distinct_dim_orders set_slice_positions [of "y self" "h self" rows]
    set_slice_positions [of "x self" "w self" cols]
  by (simp add: indices_def)

theorem indices_index_spec_witness:
  "indices \<lparr>x = 2, y = 3, w = 4, h = 5, dimOrder = ChannelHeightWidth,
            transform = None :: string option\<rparr> True =
     Inr [Slice None None, Slice (Some 3) (Some 8), Slice (Some 2) (Some 6)] \<and>
   indices \<lparr>x = 2, y = 3, w = 4, h = 5, dimOrder = ChannelHeightWidth,
            transform = None :: string option\<rparr> False =
     Inr [Slice (Some 3) (Some 8), Slice (Some 2) (Some 6)] \<and>
   indices \<lparr>x = 2, y = 3, w = 4, h = 5, dimOrder = HeightWidthChannel,
            transform = None :: string option\<rparr> True =
     Inr [Slice (Some 3) (Some 8), Slice (Some 2) (Some 6)] \<and>
   set (slice_positions (Slice (Some 3) (Some 8)) 10) = {3..<8} \<and>
   set (slice_positions (Slice (Some 2) (Some 6)) 10) = {2..<6}"
  using indices_index_spec [where self = "\<lparr>x = 2, y = 3, w = 4, h = 5,
            dimOrder = ChannelHeightWidth, transform = None :: string option\<rparr>"
            and rows = 10 and cols = 10]
    indices_index_spec [where self = "\<lparr>x = 2, y = 3, w = 4, h = 5,
            dimOrder = HeightWidthChannel, transform = None :: string option\<rparr>"
            and includeChannel = True and rows = 10 and cols = 10]
  by simp

text \<open>
  Claim C6 (apply). \<open>apply\<close> subscripts the array with \<open>indices\<close> taken with the channel
  axis included; when the subscript yields a view, the result is that view itself if no
  transform is bound, and exactly the transform's result on that view if one is. An
  exception of \<open>indices\<close>, of the subscript or of the transform is the call's result
  unchanged.
\<close>

theorem apply_window_slices_then_transforms:
  "(indices self True = Inr idx \<and> getitem matrix idx = Inr view \<longrightarrow>
      (transform self = None \<longrightarrow> apply_window self getitem matrix = Inr view) \<and>
      (\<forall>f. transform self = Some f \<longrightarrow> apply_window self getitem matrix = f view)) \<and>
   (indices self True = Inr idx \<and> getitem matrix idx = Inl e \<longrightarrow>
      apply_window self getitem matrix = Inl e) \<and>
   (indices self True = Inl e \<longrightarrow> apply_window self getitem matrix = Inl e)"
  by (simp add: apply_window_def)

theorem apply_window_slices_then_transforms_witness:
  "indices \<lparr>x = 2, y = 3, w = 4, h = 5, dimOrder = ChannelHeightWidth,
            transform = Some (\<lambda>v :: slice list list. Inr (v @ v) :: py_error + slice list list)\<rparr>
       True =
     Inr [Slice None None, Slice (Some 3) (Some 8), Slice (Some 2) (Some 6)] \<and>
   apply_window \<lparr>x = 2, y = 3, w = 4, h = 5, dimOrder = ChannelHeightWidth,
                 transform = Some (\<lambda>v. Inr (v @ v))\<rparr> (\<lambda>m idx. Inr (idx # m)) [] =
     Inr [[Slice None None, Slice (Some 3) (Some 8), Slice (Some 2) (Some 6)],
          [Slice None None, Slice (Some 3) (Some 8), Slice (Some 2) (Some 6)]] \<and>
   apply_window \<lparr>x = 2, y = 3, w = 4, h = 5, dimOrder = ChannelHeightWidth,
                 transform = None\<rparr> (\<lambda>m idx. Inr (idx # m)) [] =
     Inr [[Slice None None, Slice (Some 3) (Some 8), Slice (Some 2) (Some 6)]]"
proof -
  let ?idx = "[Slice None None, Slice (Some 3) (Some 8), Slice (Some 2) (Some 6)]"
  let ?g = "\<lambda>(m :: slice list list) idx. Inr (idx # m) :: py_error + slice list list"
  let ?f = "\<lambda>v :: slice list list. Inr (v @ v) :: py_error + slice list list"
  let ?wf = "\<lparr>x = 2, y = 3, w = 4, h = 5, dimOrder = ChannelHeightWidth, transform = Some ?f\<rparr>"
  let ?wn = "\<lparr>x = 2, y = 3, w = 4, h = 5, dimOrder = ChannelHeightWidth,
              transform = None :: (slice list list \<Rightarrow> py_error + slice list list) option\<rparr>"
  have i1: "indices ?wf True = Inr ?idx" and i2: "indices ?wn True = Inr ?idx"
    by (simp_all add: indices_def distinct_dim_orders)
  have v: "?g [] ?idx = Inr [?idx]" by simp
  from apply_window_slices_then_transforms [of ?wf ?idx ?g "[]" "[?idx]"] i1 v
  have a: "apply_window ?wf ?g [] = ?f [?idx]" by simp
  from apply_window_slices_then_transforms [of ?wn ?idx ?g "[]" "[?idx]"] i2 v
  have b: "apply_window ?wn ?g [] = Inr [?idx]" by simp
  show ?thesis using i1 a b by simp
qed

text \<open>
  Claim C7 (invalid dimensions and window sizes), as the code has it. \<open>generateForSize\<close>
  checks neither the dimensions nor the window size. What fails is a clipped window size
  of exactly 0 on either axis (so also a width or height of 0 with a non-negative
  requested size): the step of that axis is then 0 and \<^verbatim>\<open>range\<close> raises its ValueError,
  so no window list is returned. Negative dimensions and negative window sizes are not
  rejected.
\<close>

theorem generateForSize_zero_window_fails:
  assumes "windowSize maxWindowSize overrideWidth width = 0 \<or>
           windowSize maxWindowSize overrideHeight height = 0"
  shows "generateForSize width height dimOrd maxWindowSize overlapPercent transforms
           overrideWidth overrideHeight iterorder = Inl ValueError"
proof -
  let ?wsx = "windowSize maxWindowSize overrideWidth width"
  let ?wsy = "windowSize maxWindowSize overrideHeight height"
  have z: "\<And>ws extent. ws = 0 \<Longrightarrow> offsets extent ws (stepSize ws overlapPercent) = Inl ValueError"
    by (simp add: stepSize_def windowOverlap_def offsets_zero_step)
  show ?thesis
  proof (cases "offsets width ?wsx (stepSize ?wsx overlapPercent)")
    case (Inl e)
    then show ?thesis
      using offsets_error[OF Inl] by (simp add: generateForSize_unfold Let_def)
  next
    case (Inr xs)
    then have "?wsx \<noteq> 0" using z[of ?wsx width] by auto
    then have "offsets height ?wsy (stepSize ?wsy overlapPercent) = Inl ValueError"
      using assms z[of ?wsy height] by simp
    then show ?thesis using Inr by (simp add: generateForSize_unfold Let_def)
  qed
qed

theorem generateForSize_zero_window_fails_witness:
  "(windowSize 5 None 0 = 0 \<or> windowSize 5 None 10 = 0) \<and>
   generateForSize 0 10 ChannelHeightWidth 5 0 ([] :: string list) None None
     TransformWidthHeight = Inl ValueError"
  using generateForSize_zero_window_fails [of 5 None 0 None 10 ChannelHeightWidth 0
      "[] :: string list" TransformWidthHeight]
  by (simp add: windowSize_def)

text \<open>
  The claim as stated fails: a negative width, and a negative window size, both give a
  list of windows.
\<close>

theorem generateForSize_nonpositive_not_rejected:
  "generateForSize (- 5) 3 ChannelHeightWidth 3 0 ([] :: string list) None None
     TransformWidthHeight =
     Inr [\<lparr>x = 0, y = 0, w = - 5, h = 3, dimOrder = ChannelHeightWidth, transform = None\<rparr>] \<and>
   generateForSize 10 3 ChannelHeightWidth (- 2) 0 ([] :: string list) None None
     TransformWidthHeight =
     Inr [\<lparr>x = 12, y = 5, w = - 2, h = - 2, dimOrder = ChannelHeightWidth, transform = None\<rparr>]"
  by (simp add: generateForSize_def py_range_def range_up.simps range_down.simps
      iterate_dims_def Let_def TransformWidthHeight_def TransformHeightWidth_def)

text \<open>
  Claim C8 (unsupported orders). Both \<open>indices\<close> and \<open>iterate_dims\<close> end in
  \<^verbatim>\<open>raise Error(...)\<close> with a message naming the unsupported order, but the module has no
  \<^verbatim>\<open>Error\<close>: for a dimension order and an iteration order outside the two variants, what
  is raised in both places is the NameError for that name.
\<close>

theorem unsupported_order_raises_NameError:
  "indices \<lparr>x = 2, y = 3, w = 4, h = 5, dimOrder = [''w'', ''h'', ''c''],
            transform = None :: string option\<rparr> True = Inl (NameError ''Error'') \<and>
   iterate_dims [0] [0] [None :: string option] [''x'', ''y'', ''t''] =
     Inl (NameError ''Error'')"
  by (simp add: indices_def iterate_dims_def HeightWidthChannel_def ChannelHeightWidth_def
      TransformHeightWidth_def TransformWidthHeight_def)




end
